theory Spec2Isabelle
  imports Main "HOL-Library.Sublist"
begin

section \<open>JavaScript values shared by both modules\<close>

text \<open>
  Values thrown or passed to \<open>reject\<close>. \<open>ServiceError\<close> is an error object handed over by
  the gRPC layer, \<open>TypeError\<close> is what the runtime raises when a method is called on
  \<open>undefined\<close>, \<open>UserError\<close> is anything raised by code the caller supplied, \<open>IOError\<close> is
  what the file system and the packaging helpers report, \<open>NodeError\<close> is an error raised by
  the runtime's own modules, named by its code.
\<close>

datatype error =
  ServiceError string | TypeError string | UserError string | IOError string | NodeError string

text \<open>
  A promise is settled at most once: \<open>resolve\<close> and \<open>reject\<close> act only on a pending promise
  and are ignored afterwards.
\<close>

datatype 'a promise = Pending | Resolved 'a | Rejected error

definition resolve :: "'a \<Rightarrow> 'a promise \<Rightarrow> 'a promise" where
  "resolve v p = (case p of Pending \<Rightarrow> Resolved v | _ \<Rightarrow> p)"

definition reject :: "error \<Rightarrow> 'a promise \<Rightarrow> 'a promise" where
  "reject e p = (case p of Pending \<Rightarrow> Rejected e | _ \<Rightarrow> p)"

text \<open>The test \<open>if (s)\<close> on an optional string: \<open>undefined\<close> and the empty string are falsy.\<close>

definition truthy :: "string option \<Rightarrow> bool" where
  "truthy s = (case s of None \<Rightarrow> False | Some v \<Rightarrow> v \<noteq> [])"

section \<open>The Funcs client (mods/funcs/src/client/funcs.ts)\<close>

subsection \<open>Messages\<close>

text \<open>
  \<open>FuncsPB.Func\<close> as read through its getters \<open>getName\<close>, \<open>getImage\<close>,
  \<open>getInvocationCount\<close>, \<open>getReplicas\<close>, \<open>getAvailableReplicas\<close>.
\<close>

record Func =
  getName :: string
  getImage :: string
  getInvocationCount :: int
  getReplicas :: int
  getAvailableReplicas :: int

text \<open>The object literal \<open>getFunc\<close> resolves with.\<close>

record GetFuncResponse =
  name :: string
  image :: string
  invocationCount :: int
  replicas :: int
  availableReplicas :: int

text \<open>\<open>GetFuncRequest\<close> and \<open>DeleteFuncRequest\<close> of \<open>../types\<close>: only \<open>request.name\<close> is read.\<close>

record GetFuncRequest =
  get_request_name :: string

record DeleteFuncRequest =
  delete_request_name :: string

text \<open>The object literal \<open>deleteFunc\<close> resolves with: \<open>{name: request.name}\<close>.\<close>

record DeleteFuncResponse =
  deleted_name :: string


subsection \<open>getFunc\<close>

text \<open>
  The callback given to \<open>getService().getFunc\<close>, run on a promise in state \<open>p\<close>:
  \<^verbatim>\<open>(e, res) => { if (e) reject(e); resolve({name: res.getName(), ...}); }\<close>
  There is no \<open>return\<close> after \<open>reject\<close>: control goes on to build the object literal, which
  raises a \<open>TypeError\<close> when \<open>res\<close> is \<open>undefined\<close>. The result is the exception escaping
  the callback, if any, and the promise.
\<close>

definition getFunc_callback ::
  "error option \<Rightarrow> Func option \<Rightarrow> GetFuncResponse promise \<Rightarrow> error option \<times> GetFuncResponse promise"
where
  "getFunc_callback e res p =
     (let p1 = (case e of Some err \<Rightarrow> reject err p | None \<Rightarrow> p)
      in case res of
           None \<Rightarrow> (Some (TypeError ''Cannot read property getName of undefined''), p1)
         | Some r \<Rightarrow>
             (None,
              resolve \<lparr>name = getName r, image = getImage r,
                       invocationCount = getInvocationCount r, replicas = getReplicas r,
                       availableReplicas = getAvailableReplicas r\<rparr> p1))"

text \<open>
  \<open>getFunc\<close>: the service is a function from the name set on the request message to the
  arguments \<open>(e, res)\<close> it calls back with.
\<close>

definition getFunc ::
  "(string \<Rightarrow> error option \<times> Func option) \<Rightarrow> GetFuncRequest
     \<Rightarrow> error option \<times> GetFuncResponse promise"
where
  "getFunc service request =
     (case service (get_request_name request) of (e, res) \<Rightarrow> getFunc_callback e res Pending)"

subsection \<open>deleteFunc\<close>

text \<open>
  \<^verbatim>\<open>(e) => { if (e) reject(e); resolve({name: request.name}); }\<close>
  The callback declares one parameter: whatever the service passes second is not read.
\<close>

definition deleteFunc_callback ::
  "DeleteFuncRequest \<Rightarrow> error option \<Rightarrow> 'r \<Rightarrow> DeleteFuncResponse promise
     \<Rightarrow> DeleteFuncResponse promise"
where
  "deleteFunc_callback request e res p =
     (let p1 = (case e of Some err \<Rightarrow> reject err p | None \<Rightarrow> p)
      in resolve \<lparr>deleted_name = delete_request_name request\<rparr> p1)"

definition deleteFunc ::
  "(string \<Rightarrow> error option \<times> 'r) \<Rightarrow> DeleteFuncRequest \<Rightarrow> DeleteFuncResponse promise"
where
  "deleteFunc service request =
     (case service (delete_request_name request) of
        (e, res) \<Rightarrow> deleteFunc_callback request e res Pending)"

subsection \<open>deployFunc\<close>








section \<open>The voice server (mods/voice/src/server.ts)\<close>

subsection \<open>Configuration\<close>

text \<open>
  A configuration object is a finite map from field names to primitive values; a field the
  caller leaves out is a key outside the domain.
\<close>

datatype jsval = JStr string | JNum int

type_synonym ServerConfig = "string \<rightharpoonup> jsval"

definition defaultServerConfig :: ServerConfig where
  "defaultServerConfig =
     [''path'' \<mapsto> JStr ''/'', ''port'' \<mapsto> JNum 3000, ''bind'' \<mapsto> JStr ''0.0.0.0'']"

text \<open>
  \<open>merge\<close> is the \<open>deepmerge\<close> package applied to two objects whose values are primitive:
  the result has the keys of both, and on a common key the second argument wins.
\<close>

definition merge :: "ServerConfig \<Rightarrow> ServerConfig \<Rightarrow> ServerConfig" where
  "merge x y = x ++ y"

text \<open>
  The constructor, \<open>constructor(config = defaultServerConfig) { this.config =
  merge(defaultServerConfig, config) }\<close>: the default parameter stands in when no argument
  is given. The result is \<open>this.config\<close>. The call of \<open>init\<close> that follows registers the
  WebSocket route, which is \<open>ws_on_message\<close> below.
\<close>

definition VoiceServer :: "ServerConfig option \<Rightarrow> ServerConfig" where
  "VoiceServer config =
     merge defaultServerConfig (case config of None \<Rightarrow> defaultServerConfig | Some c \<Rightarrow> c)"

subsection \<open>The HTTP response object\<close>

text \<open>
  What \<open>res.send\<close> is given: a string, or the buffer \<open>fs.readFile\<close> produced.
\<close>

datatype chunk = Text string | Buffer string

text \<open>
  The \<open>res\<close> object of the HTTP layer. \<open>end_calls\<close> counts the calls of \<open>res.end\<close>, those made
  inside \<open>res.send\<close> included. Header names are kept in lower case, as the runtime stores
  them; of the headers only \<open>content-type\<close>, \<open>etag\<close> and \<open>last-modified\<close> are read or
  written here (\<open>Content-Length\<close> and the like are not tracked). A new response has status
  200 and none of these headers.
\<close>

record http_response =
  statusCode :: nat
  headers :: "string \<rightharpoonup> string"
  body :: "chunk option"
  finished :: bool
  end_calls :: nat

definition fresh_response :: http_response where
  "fresh_response =
     \<lparr>statusCode = 200, headers = Map.empty, body = None, finished = False, end_calls = 0\<rparr>"

definition setHeader :: "string \<Rightarrow> string \<Rightarrow> http_response \<Rightarrow> http_response" where
  "setHeader k v r = r\<lparr>headers := (headers r)(k \<mapsto> v)\<rparr>"

definition res_end :: "http_response \<Rightarrow> http_response" where
  "res_end r = r\<lparr>finished := True, end_calls := Suc (end_calls r)\<rparr>"

definition content_type :: "http_response \<Rightarrow> string option" where
  "content_type r = headers r ''content-type''"

subsection \<open>The GET request and the freshness check of the HTTP layer\<close>

text \<open>
  The value of an \<open>If-None-Match\<close> header: the single character \<open>*\<close>, or a list of entity
  tags.
\<close>

datatype none_match = AnyTag | Tags "string list"

text \<open>
  A GET request as the route and \<open>res.send\<close> see it: \<open>req.params.file\<close> (already
  URL-decoded by the router), the validators \<open>If-None-Match\<close> and \<open>If-Modified-Since\<close>
  (\<open>None\<close> for a header that is absent or empty), and whether \<open>Cache-Control\<close> carries the
  \<open>no-cache\<close> directive.
\<close>

record http_request =
  params_file :: string
  if_none_match :: "none_match option"
  if_modified_since :: "string option"
  no_cache :: bool

text \<open>
  What the HTTP layer brings along and this file does not set: the application's entity-tag
  function (\<open>app.get("etag fn")\<close>; \<open>server.ts\<close> leaves the default in place), the helper
  that rewrites the charset parameter of a content type, and the comparison of two HTTP
  dates.
\<close>

record express_app =
  etag_fn :: "chunk \<Rightarrow> string"
  setCharset :: "string \<Rightarrow> string"
  date_le :: "string \<Rightarrow> string \<Rightarrow> bool"

text \<open>
  \<open>req.fresh\<close> for a GET request, read against the response as it stands: the status must
  be 2xx or 304; a request without validators is never fresh, nor is one with \<open>no-cache\<close>;
  a list of tags must contain the response's \<open>ETag\<close> (up to the weak prefix \<open>W/\<close>); and an
  \<open>If-Modified-Since\<close> date must not be earlier than the response's \<open>Last-Modified\<close>, which
  must be there.
\<close>

definition fresh :: "express_app \<Rightarrow> http_request \<Rightarrow> http_response \<Rightarrow> bool" where
  "fresh app req r =
     ((200 \<le> statusCode r \<and> statusCode r < 300 \<or> statusCode r = 304)
      \<and> (if_none_match req \<noteq> None \<or> if_modified_since req \<noteq> None)
      \<and> \<not> no_cache req
      \<and> (case if_none_match req of
            None \<Rightarrow> True
          | Some AnyTag \<Rightarrow> True
          | Some (Tags ms) \<Rightarrow>
              (case headers r ''etag'' of
                 None \<Rightarrow> False
               | Some e \<Rightarrow> e \<noteq> [] \<and> list_ex (\<lambda>m. m = e \<or> m = ''W/'' @ e \<or> ''W/'' @ m = e) ms))
      \<and> (case if_modified_since req of
            None \<Rightarrow> True
          | Some since \<Rightarrow>
              (case headers r ''last-modified'' of
                 None \<Rightarrow> False
               | Some lm \<Rightarrow> date_le app lm since)))"

text \<open>
  The first half of \<open>res.send\<close>: a content type is filled in when none is set (\<open>text/html\<close>
  for a string, octet-stream for a buffer), the content type of a string gets its charset
  rewritten, and an entity tag is generated for the chunk when the response has none.
\<close>

definition prepare :: "express_app \<Rightarrow> chunk \<Rightarrow> http_response \<Rightarrow> http_response" where
  "prepare app c r =
     (let h1 = (case c of
                  Text _ \<Rightarrow>
                    (headers r)(''content-type'' \<mapsto>
                       setCharset app (if truthy (headers r ''content-type'')
                                       then the (headers r ''content-type'')
                                       else ''text/html; charset=utf-8''))
                | Buffer _ \<Rightarrow>
                    (if truthy (headers r ''content-type'') then headers r
                     else (headers r)(''content-type'' \<mapsto> ''application/octet-stream'')));
          h2 = (if truthy (h1 ''etag'') \<or> etag_fn app c = [] then h1
                else h1(''etag'' \<mapsto> etag_fn app c))
      in r\<lparr>headers := h2\<rparr>)"

text \<open>
  \<open>res.send\<close>. On a response whose headers have gone out, setting a header raises. On an
  open response: after the first half, \<open>if (req.fresh) this.statusCode = 304\<close>; under
  status 204 or 304 the content type is removed and the chunk replaced by the empty string;
  then the response is ended with the chunk.
\<close>

definition send ::
  "express_app \<Rightarrow> http_request \<Rightarrow> chunk \<Rightarrow> http_response \<Rightarrow> error + http_response"
where
  "send app req c r =
     (if finished r then Inl (NodeError ''ERR_HTTP_HEADERS_SENT'')
      else
        let r2 = prepare app c r;
            r3 = (if fresh app req r2 then r2\<lparr>statusCode := 304\<rparr> else r2)
        in Inr (res_end
                 (if statusCode r3 = 204 \<or> statusCode r3 = 304
                  then r3\<lparr>headers := (headers r3)(''content-type'' := None), body := Some (Text [])\<rparr>
                  else r3\<lparr>body := Some c\<rparr>)))"

subsection \<open>GET /tts/:file\<close>

text \<open>
  The file system is a partial map from paths to contents. \<open>fs.readFile\<close> refuses a path
  that contains a NUL character by raising at the call; otherwise it calls back, with an
  error for a path that is missing or cannot be opened and with the contents for one that
  can be read. The outer \<open>Inl\<close> is the exception, the inner sum the arguments of the
  callback.
\<close>

type_synonym filesystem = "string \<rightharpoonup> string"

definition readFile :: "filesystem \<Rightarrow> string \<Rightarrow> error + (error + string)" where
  "readFile fs p =
     (if CHR 0x00 \<in> set p then Inl (NodeError ''ERR_INVALID_ARG_VALUE'')
      else Inr (case fs p of None \<Rightarrow> Inl (IOError p) | Some d \<Rightarrow> Inr d))"

text \<open>
  The route and the \<open>readFile\<close> callback inside it:
  \<^verbatim>\<open>fs.readFile("./.tts/" + req.params.file, function (err, data) {
    if (err) { res.send("unable to find or open file"); }
    else { res.setHeader("content-type", "audio/x-wav"); res.send(data); }
    res.end(); });\<close>
  The path is the plain concatenation, so a name with \<open>../\<close> in it leads out of the
  directory. Neither branch assigns a status. The result is \<open>Inl\<close> when an exception leaves
  the route or its callback, and the response as the route leaves it otherwise.
\<close>

definition tts_get ::
  "express_app \<Rightarrow> filesystem \<Rightarrow> http_request \<Rightarrow> http_response \<Rightarrow> error + http_response"
where
  "tts_get app fs req r =
     (case readFile fs (''./.tts/'' @ params_file req) of
        Inl thrown \<Rightarrow> Inl thrown
      | Inr (Inl err) \<Rightarrow>
          (case send app req (Text ''unable to find or open file'') r of
             Inl e \<Rightarrow> Inl e
           | Inr r1 \<Rightarrow> Inr (res_end r1))
      | Inr (Inr data) \<Rightarrow>
          (case send app req (Buffer data) (setHeader ''content-type'' ''audio/x-wav'' r) of
             Inl e \<Rightarrow> Inl e
           | Inr r1 \<Rightarrow> Inr (res_end r1)))"

definition no_files :: filesystem where
  "no_files = Map.empty"

subsection \<open>Objects and the module state\<close>

type_synonym addr = nat
type_synonym payload = string
type_synonym action = string

text \<open>
  Modelled from the spec: the class \<open>VoiceResponse\<close> of \<open>./voice\<close>, which is not among the
  sources. The constructor receives the request body and the event bus; the spec gives the
  builder an ordered, append-only sequence of actions, empty at construction.
\<close>

record VoiceResponse =
  request :: payload
  events :: addr
  actions :: "action list"

text \<open>How far the handler of one request has come.\<close>

datatype handler_state = Running | Returned | Threw error

text \<open>
  One activation of the \<open>async (req, res) => ...\<close> callback of the POST route: \<open>req.body\<close>,
  the local \<open>response\<close> (the address of the builder), the \<open>res\<close> object, and the state of
  the awaited handler.
\<close>

record invocation =
  req_body :: payload
  response :: addr
  res :: http_response
  handler :: handler_state

text \<open>
  The state of the module. \<open>voiceEvents\<close> is the module-level constant of line 30, the
  address of the one \<open>VoiceEvents\<close> object; \<open>bus_instances\<close> lists every \<open>VoiceEvents\<close>
  object ever constructed. \<open>builders\<close> is the heap of \<open>VoiceResponse\<close> objects and
  \<open>next_addr\<close> the next unused address. \<open>invocations\<close> holds the activations of the POST
  callback by request number, \<open>requests\<close> counts the POSTs received. \<open>broadcasts\<close> logs each
  call of \<open>broadcast\<close> with its receiver and its argument, \<open>ws_sent\<close> each frame written to a
  socket, \<open>unhandled\<close> each rejection that leaves the POST callback.
\<close>

record server_state =
  voiceEvents :: addr
  bus_instances :: "addr list"
  next_addr :: addr
  builders :: "addr \<rightharpoonup> VoiceResponse"
  requests :: nat
  invocations :: "nat \<rightharpoonup> invocation"
  broadcasts :: "(addr \<times> payload) list"
  ws_sent :: "(nat \<times> payload) list"
  unhandled :: "(nat \<times> error) list"

text \<open>After the module is loaded: \<open>const voiceEvents = new VoiceEvents()\<close> has run.\<close>

definition module_init :: server_state where
  "module_init =
     \<lparr>voiceEvents = 0, bus_instances = [0], next_addr = 1, builders = Map.empty,
      requests = 0, invocations = Map.empty, broadcasts = [], ws_sent = [], unhandled = []\<rparr>"

subsection \<open>The POST route\<close>

text \<open>
  The callback up to its \<open>await\<close>: \<open>const response = new VoiceResponse(req.body,
  voiceEvents)\<close> allocates a builder, then the handler is started with it.
\<close>

definition post_begin :: "payload \<Rightarrow> server_state \<Rightarrow> server_state" where
  "post_begin b s =
     (let a = next_addr s; r = requests s
      in s\<lparr>next_addr := Suc a,
            builders := (builders s)(a \<mapsto> \<lparr>request = b, events = voiceEvents s, actions = []\<rparr>),
            requests := Suc r,
            invocations := (invocations s)(r \<mapsto>
               \<lparr>req_body = b, response = a, res = fresh_response, handler = Running\<rparr>)\<rparr>)"

text \<open>How the promise awaited at line 61 settles.\<close>

datatype outcome = Return | Throw error

text \<open>
  The callback from its \<open>await\<close> on. When the handler returns, \<open>res.end()\<close> runs. When it
  throws or its promise rejects, the \<open>await\<close> raises inside the callback; no handler
  encloses it, so the callback's own promise rejects and line 62 is not reached. The
  router (Express 4, which \<open>express-ws\<close> extends) does not look at the promise a route
  callback returns, so the rejection is recorded as unhandled and \<open>res\<close> is left untouched.
\<close>

definition post_resume :: "nat \<Rightarrow> outcome \<Rightarrow> server_state \<Rightarrow> server_state" where
  "post_resume r out s =
     (case invocations s r of
        None \<Rightarrow> s
      | Some i \<Rightarrow>
          if handler i \<noteq> Running then s
          else (case out of
                  Return \<Rightarrow>
                    s\<lparr>invocations := (invocations s)(r \<mapsto>
                         i\<lparr>res := res_end (res i), handler := Returned\<rparr>)\<rparr>
                | Throw e \<Rightarrow>
                    s\<lparr>invocations := (invocations s)(r \<mapsto> i\<lparr>handler := Threw e\<rparr>),
                      unhandled := unhandled s @ [(r, e)]\<rparr>))"

text \<open>
  Modelled from the spec: \<open>addAction\<close> of the missing class \<open>VoiceResponse\<close>, which appends
  to the ordered action sequence. A running handler calls it on the builder it was given.
\<close>

definition handler_addAction :: "nat \<Rightarrow> action \<Rightarrow> server_state \<Rightarrow> server_state" where
  "handler_addAction r act s =
     (case invocations s r of
        None \<Rightarrow> s
      | Some i \<Rightarrow>
          if handler i \<noteq> Running then s
          else (case builders s (response i) of
                  None \<Rightarrow> s
                | Some b \<Rightarrow>
                    s\<lparr>builders := (builders s)(response i \<mapsto>
                         b\<lparr>actions := actions b @ [act]\<rparr>)\<rparr>))"

subsection \<open>The WebSocket route\<close>

text \<open>\<^verbatim>\<open>ws.on("message", (msg) => { voiceEvents.broadcast(msg); })\<close>\<close>

definition ws_on_message :: "payload \<Rightarrow> server_state \<Rightarrow> server_state" where
  "ws_on_message msg s = s\<lparr>broadcasts := broadcasts s @ [(voiceEvents s, msg)]\<rparr>"

subsection \<open>Runs of the server\<close>

text \<open>
  What reaches a server after \<open>new VoiceServer(config)\<close> and \<open>listen(handler)\<close> have
  registered the routes: a POST on the configured path with its
  parsed body; the handler of request \<open>r\<close> adding an action, returning or failing; a
  WebSocket connection \<open>c\<close> being opened, or delivering a message. Requests are numbered
  in the order of arrival. The connection callback only registers the message listener.
\<close>

datatype event =
    Post payload
  | HandlerAddAction nat action
  | HandlerReturn nat
  | HandlerThrow nat error
  | WsConnect nat
  | WsMessage nat payload

fun step :: "event \<Rightarrow> server_state \<Rightarrow> server_state" where
  "step (Post b) s = post_begin b s"
| "step (HandlerAddAction r act) s = handler_addAction r act s"
| "step (HandlerReturn r) s = post_resume r Return s"
| "step (HandlerThrow r e) s = post_resume r (Throw e) s"
| "step (WsConnect c) s = s"
| "step (WsMessage c msg) s = ws_on_message msg s"

definition run :: "event list \<Rightarrow> server_state \<Rightarrow> server_state" where
  "run evs s = fold step evs s"

text \<open>The actions the handler of request \<open>r\<close> asks for in a run, in order.\<close>

fun added_by :: "nat \<Rightarrow> event list \<Rightarrow> action list" where
  "added_by r [] = []"
| "added_by r (HandlerAddAction r' act # evs) =
     (if r' = r then act # added_by r evs else added_by r evs)"
| "added_by r (_ # evs) = added_by r evs"

text \<open>The number of POSTs in a run.\<close>

fun posts :: "event list \<Rightarrow> nat" where
  "posts [] = 0"
| "posts (Post b # evs) = Suc (posts evs)"
| "posts (_ # evs) = posts evs"

text \<open>The payloads received on WebSocket connections in a run, in order.\<close>

fun ws_payloads :: "event list \<Rightarrow> payload list" where
  "ws_payloads [] = []"
| "ws_payloads (WsMessage c msg # evs) = msg # ws_payloads evs"
| "ws_payloads (_ # evs) = ws_payloads evs"

text \<open>
  What every reachable state satisfies: builders live below \<open>next_addr\<close>, every activation
  has a number below \<open>requests\<close> and a builder on the heap, and no two activations hold
  the same builder.
\<close>

definition state_ok :: "server_state \<Rightarrow> bool" where
  "state_ok s \<longleftrightarrow>
     (\<forall>a b. builders s a = Some b \<longrightarrow> a < next_addr s) \<and>
     (\<forall>r i. invocations s r = Some i \<longrightarrow>
        r < requests s \<and> (\<exists>b. builders s (response i) = Some b)) \<and>
     (\<forall>r r' i i'. invocations s r = Some i \<longrightarrow> invocations s r' = Some i' \<longrightarrow>
        response i = response i' \<longrightarrow> r = r')"

section \<open>The event bus and waitForEvent\<close>












section \<open>Sample inputs\<close>



definition sample_func :: Func where
  "sample_func =
     \<lparr>getName = ''function1'', getImage = ''docker.io/functions/function1:latest'',
      getInvocationCount = 7, getReplicas = 2, getAvailableReplicas = 1\<rparr>"

definition failing_get :: "string \<Rightarrow> error option \<times> Func option" where
  "failing_get n = (Some (ServiceError ''not found''), None)"

definition found_get :: "string \<Rightarrow> error option \<times> Func option" where
  "found_get n = (None, Some sample_func)"

definition ok_delete :: "string \<Rightarrow> error option \<times> string" where
  "ok_delete n = (None, ''some-other-name'')"



definition port_only :: ServerConfig where
  "port_only = [''port'' \<mapsto> JNum 8080]"

definition one_file :: filesystem where
  "one_file = [''./.tts/hello.wav'' \<mapsto> ''RIFF'']"

definition sample_etag :: "chunk \<Rightarrow> string" where
  "sample_etag c = ''W/tag''"

definition keep_charset :: "string \<Rightarrow> string" where
  "keep_charset t = t"

definition never_le :: "string \<Rightarrow> string \<Rightarrow> bool" where
  "never_le a b = False"

definition sample_app :: express_app where
  "sample_app = \<lparr>etag_fn = sample_etag, setCharset = keep_charset, date_le = never_le\<rparr>"

definition get_missing :: http_request where
  "get_missing =
     \<lparr>params_file = ''missing.wav'', if_none_match = None, if_modified_since = None,
      no_cache = False\<rparr>"

definition get_hello :: http_request where
  "get_hello =
     \<lparr>params_file = ''hello.wav'', if_none_match = None, if_modified_since = None,
      no_cache = False\<rparr>"

definition get_hello_revalidate :: http_request where
  "get_hello_revalidate =
     \<lparr>params_file = ''hello.wav'', if_none_match = Some AnyTag, if_modified_since = None,
      no_cache = False\<rparr>"

definition get_nul :: http_request where
  "get_nul =
     \<lparr>params_file = [CHR 0x00], if_none_match = None, if_modified_since = None,
      no_cache = False\<rparr>"

section \<open>Properties of the Funcs client\<close>

subsection \<open>The deployment stream\<close>







subsection \<open>getFunc and deleteFunc\<close>

text \<open>
  C9. When the service calls back with an error, the promise of \<open>getFunc\<close> is rejected
  with that error, whatever the second argument is; when it calls back without an error and
  with a response, the promise is resolved with the five fields read from the response and
  nothing is raised.
\<close>

theorem getFunc_settles:
  "(service (get_request_name req) = (Some err, reply) \<longrightarrow>
      snd (getFunc service req) = Rejected err)
   \<and> (service (get_request_name req) = (None, Some f) \<longrightarrow>
      getFunc service req =
        (None, Resolved \<lparr>name = getName f, image = getImage f,
                        invocationCount = getInvocationCount f, replicas = getReplicas f,
                        availableReplicas = getAvailableReplicas f\<rparr>))"
  by (cases reply) (simp_all add: getFunc_def getFunc_callback_def resolve_def reject_def)

theorem getFunc_settles_witness:
  "failing_get ''function1'' = (Some (ServiceError ''not found''), None)
   \<and> snd (getFunc failing_get \<lparr>get_request_name = ''function1''\<rparr>)
       = Rejected (ServiceError ''not found'')
   \<and> found_get ''function1'' = (None, Some sample_func)
   \<and> getFunc found_get \<lparr>get_request_name = ''function1''\<rparr> =
       (None, Resolved \<lparr>name = ''function1'', image = ''docker.io/functions/function1:latest'',
                       invocationCount = 7, replicas = 2, availableReplicas = 1\<rparr>)"
  using getFunc_settles [of failing_get "\<lparr>get_request_name = ''function1''\<rparr>"
                            "ServiceError ''not found''" None sample_func]
        getFunc_settles [of found_get "\<lparr>get_request_name = ''function1''\<rparr>"
                            "ServiceError ''not found''" None sample_func]
  by (simp add: failing_get_def found_get_def sample_func_def)

text \<open>
  C10. When the service calls back without an error, the promise of \<open>deleteFunc\<close> is
  resolved with the name taken from the caller's request, whatever the service sent along.
\<close>

theorem deleteFunc_echoes_name:
  "service (delete_request_name req) = (None, reply) \<Longrightarrow>
     deleteFunc service req = Resolved \<lparr>deleted_name = delete_request_name req\<rparr>"
  by (simp add: deleteFunc_def deleteFunc_callback_def resolve_def)

theorem deleteFunc_echoes_name_witness:
  "ok_delete ''function1'' = (None, ''some-other-name'')
   \<and> deleteFunc ok_delete \<lparr>delete_request_name = ''function1''\<rparr>
       = Resolved \<lparr>deleted_name = ''function1''\<rparr>"
  using deleteFunc_echoes_name [of ok_delete "\<lparr>delete_request_name = ''function1''\<rparr>"
                                  "''some-other-name''"]
  by (simp add: ok_delete_def)

section \<open>Properties of the voice server\<close>

subsection \<open>What each route writes\<close>

lemma post_begin_fields:
  "builders (post_begin b s) =
     (builders s)(next_addr s \<mapsto> \<lparr>request = b, events = voiceEvents s, actions = []\<rparr>)"
  "invocations (post_begin b s) =
     (invocations s)(requests s \<mapsto>
        \<lparr>req_body = b, response = next_addr s, res = fresh_response, handler = Running\<rparr>)"
  "next_addr (post_begin b s) = Suc (next_addr s)"
  "requests (post_begin b s) = Suc (requests s)"
  "voiceEvents (post_begin b s) = voiceEvents s"
  "bus_instances (post_begin b s) = bus_instances s"
  "broadcasts (post_begin b s) = broadcasts s"
  "ws_sent (post_begin b s) = ws_sent s"
  "unhandled (post_begin b s) = unhandled s"
  by (simp_all add: post_begin_def Let_def)

lemma post_resume_fields:
  "builders (post_resume r out s) = builders s"
  "next_addr (post_resume r out s) = next_addr s"
  "requests (post_resume r out s) = requests s"
  "voiceEvents (post_resume r out s) = voiceEvents s"
  "bus_instances (post_resume r out s) = bus_instances s"
  "broadcasts (post_resume r out s) = broadcasts s"
  "ws_sent (post_resume r out s) = ws_sent s"
  by (simp_all add: post_resume_def split: option.splits outcome.splits)

lemma post_resume_response:
  "map_option response (invocations (post_resume r out s) r') =
   map_option response (invocations s r')"
  by (simp add: post_resume_def split: option.splits outcome.splits)

lemma handler_addAction_fields:
  "invocations (handler_addAction r act s) = invocations s"
  "next_addr (handler_addAction r act s) = next_addr s"
  "requests (handler_addAction r act s) = requests s"
  "voiceEvents (handler_addAction r act s) = voiceEvents s"
  "bus_instances (handler_addAction r act s) = bus_instances s"
  "broadcasts (handler_addAction r act s) = broadcasts s"
  "ws_sent (handler_addAction r act s) = ws_sent s"
  "unhandled (handler_addAction r act s) = unhandled s"
  by (simp_all add: handler_addAction_def split: option.splits)

lemma handler_addAction_events:
  "map_option events (builders (handler_addAction r act s) a) = map_option events (builders s a)"
  by (simp add: handler_addAction_def split: option.splits)

lemma ws_on_message_fields:
  "invocations (ws_on_message m s) = invocations s"
  "builders (ws_on_message m s) = builders s"
  "next_addr (ws_on_message m s) = next_addr s"
  "requests (ws_on_message m s) = requests s"
  "voiceEvents (ws_on_message m s) = voiceEvents s"
  "bus_instances (ws_on_message m s) = bus_instances s"
  "ws_sent (ws_on_message m s) = ws_sent s"
  "unhandled (ws_on_message m s) = unhandled s"
  "broadcasts (ws_on_message m s) = broadcasts s @ [(voiceEvents s, m)]"
  by (simp_all add: ws_on_message_def)

lemma map_option_eq_SomeD:
  "map_option f x = map_option f y \<Longrightarrow> x = Some a \<Longrightarrow> \<exists>b. y = Some b \<and> f b = f a"
  by (cases y) auto

lemma run_Nil: "run [] s = s"
  by (simp add: run_def)

lemma run_Cons: "run (e # evs) s = run evs (step e s)"
  by (simp add: run_def)

lemma run_snoc: "run (evs @ [e]) s = step e (run evs s)"
  by (simp add: run_def)

lemma run_append: "run (evs @ evs') s = run evs' (run evs s)"
  by (simp add: run_def)

subsection \<open>The heap invariant\<close>

lemma state_ok_init: "state_ok module_init"
  by (simp add: state_ok_def module_init_def)

lemma state_ok_addr: "state_ok s \<Longrightarrow> builders s a = Some b \<Longrightarrow> a < next_addr s"
  unfolding state_ok_def by blast

lemma state_ok_req: "state_ok s \<Longrightarrow> invocations s r = Some i \<Longrightarrow> r < requests s"
  unfolding state_ok_def by blast

lemma state_ok_builder:
  "state_ok s \<Longrightarrow> invocations s r = Some i \<Longrightarrow> \<exists>b. builders s (response i) = Some b"
  unfolding state_ok_def by blast

lemma state_ok_inj:
  "state_ok s \<Longrightarrow> invocations s r = Some i \<Longrightarrow> invocations s r' = Some i' \<Longrightarrow>
     response i = response i' \<Longrightarrow> r = r'"
  unfolding state_ok_def by blast

lemma state_ok_response_lt:
  "state_ok s \<Longrightarrow> invocations s r = Some i \<Longrightarrow> response i < next_addr s"
  using state_ok_builder state_ok_addr by blast

lemma state_ok_post_begin:
  assumes "state_ok s"
  shows "state_ok (post_begin b s)"
proof -
  have 1: "a < next_addr (post_begin b s)" if "builders (post_begin b s) a = Some c" for a c
  proof (cases "a = next_addr s")
    case True
    then show ?thesis by (simp add: post_begin_fields)
  next
    case False
    with that have "builders s a = Some c" by (simp add: post_begin_fields)
    then show ?thesis
      using state_ok_addr [OF assms] by (simp add: post_begin_fields less_Suc_eq)
  qed
  have 2: "r < requests (post_begin b s) \<and> (\<exists>c. builders (post_begin b s) (response i) = Some c)"
    if "invocations (post_begin b s) r = Some i" for r i
  proof (cases "r = requests s")
    case True
    with that show ?thesis by (auto simp add: post_begin_fields)
  next
    case False
    with that have i: "invocations s r = Some i" by (simp add: post_begin_fields)
    then obtain c where "builders s (response i) = Some c"
      using state_ok_builder [OF assms] by blast
    then show ?thesis
      using state_ok_req [OF assms i] by (simp add: post_begin_fields less_Suc_eq)
  qed
  have 3: "r = r'"
    if "invocations (post_begin b s) r = Some i" "invocations (post_begin b s) r' = Some i'"
       "response i = response i'" for r r' i i'
  proof (cases "r = requests s"; cases "r' = requests s")
    assume "r = requests s" "r' = requests s"
    then show ?thesis by simp
  next
    assume "r = requests s" "r' \<noteq> requests s"
    then have "invocations s r' = Some i'" "response i = next_addr s"
      using that by (auto simp add: post_begin_fields)
    then show ?thesis using state_ok_response_lt [OF assms, of r' i'] that(3) by simp
  next
    assume "r \<noteq> requests s" "r' = requests s"
    then have "invocations s r = Some i" "response i' = next_addr s"
      using that by (auto simp add: post_begin_fields)
    then show ?thesis using state_ok_response_lt [OF assms, of r i] that(3) by simp
  next
    assume "r \<noteq> requests s" "r' \<noteq> requests s"
    then have "invocations s r = Some i" "invocations s r' = Some i'"
      using that by (simp_all add: post_begin_fields)
    then show ?thesis using state_ok_inj [OF assms] that(3) by blast
  qed
  show ?thesis
    unfolding state_ok_def using 1 2 3 by blast
qed

lemma state_ok_post_resume:
  assumes "state_ok s"
  shows "state_ok (post_resume r out s)"
proof -
  have before: "\<exists>i0. invocations s r' = Some i0 \<and> response i0 = response i"
    if "invocations (post_resume r out s) r' = Some i" for r' i
    using map_option_eq_SomeD [OF post_resume_response that] .
  have 1: "a < next_addr (post_resume r out s)" if "builders (post_resume r out s) a = Some c" for a c
    using that state_ok_addr [OF assms] by (simp add: post_resume_fields)
  have 2: "r' < requests (post_resume r out s)
            \<and> (\<exists>c. builders (post_resume r out s) (response i) = Some c)"
    if "invocations (post_resume r out s) r' = Some i" for r' i
    using before [OF that] state_ok_req [OF assms] state_ok_builder [OF assms]
    by (simp add: post_resume_fields) metis
  have 3: "r1 = r2"
    if "invocations (post_resume r out s) r1 = Some i"
       "invocations (post_resume r out s) r2 = Some i'"
       "response i = response i'" for r1 r2 i i'
    using before [OF that(1)] before [OF that(2)] that(3) state_ok_inj [OF assms] by metis
  show ?thesis
    unfolding state_ok_def using 1 2 3 by blast
qed

lemma state_ok_addAction:
  assumes "state_ok s"
  shows "state_ok (handler_addAction r act s)"
proof -
  have before: "\<exists>c0. builders s a = Some c0"
    if "builders (handler_addAction r act s) a = Some c" for a c
    using map_option_eq_SomeD [OF handler_addAction_events that] by blast
  have after: "\<exists>c. builders (handler_addAction r act s) a = Some c"
    if "builders s a = Some c0" for a c0
    using map_option_eq_SomeD [OF handler_addAction_events [symmetric] that] by blast
  have 1: "a < next_addr (handler_addAction r act s)"
    if "builders (handler_addAction r act s) a = Some c" for a c
    using before [OF that] state_ok_addr [OF assms] by (auto simp add: handler_addAction_fields)
  have 2: "r' < requests (handler_addAction r act s)
            \<and> (\<exists>c. builders (handler_addAction r act s) (response i) = Some c)"
    if "invocations (handler_addAction r act s) r' = Some i" for r' i
    using that state_ok_req [OF assms] state_ok_builder [OF assms] after
    by (simp add: handler_addAction_fields) metis
  have 3: "r1 = r2"
    if "invocations (handler_addAction r act s) r1 = Some i"
       "invocations (handler_addAction r act s) r2 = Some i'"
       "response i = response i'" for r1 r2 i i'
    using that state_ok_inj [OF assms] by (auto simp add: handler_addAction_fields)
  show ?thesis
    unfolding state_ok_def using 1 2 3 by blast
qed

lemma state_ok_ws_on_message: "state_ok s \<Longrightarrow> state_ok (ws_on_message m s)"
  by (simp add: state_ok_def ws_on_message_fields)

lemma state_ok_step: "state_ok s \<Longrightarrow> state_ok (step e s)"
  by (cases e)
     (simp_all add: state_ok_post_begin state_ok_post_resume state_ok_addAction
        state_ok_ws_on_message)

lemma state_ok_run: "state_ok s \<Longrightarrow> state_ok (run evs s)"
  by (induction evs rule: rev_induct) (simp_all add: run_snoc run_Nil state_ok_step)

subsection \<open>The bus reference and the broadcast log\<close>

lemma step_voiceEvents: "voiceEvents (step e s) = voiceEvents s"
  by (cases e)
     (simp_all add: post_begin_fields post_resume_fields handler_addAction_fields
        ws_on_message_fields)

lemma step_bus_instances: "bus_instances (step e s) = bus_instances s"
  by (cases e)
     (simp_all add: post_begin_fields post_resume_fields handler_addAction_fields
        ws_on_message_fields)

lemma step_ws_sent: "ws_sent (step e s) = ws_sent s"
  by (cases e)
     (simp_all add: post_begin_fields post_resume_fields handler_addAction_fields
        ws_on_message_fields)

lemma step_broadcasts:
  "broadcasts (step e s) = broadcasts s @ map (Pair (voiceEvents s)) (ws_payloads [e])"
  by (cases e)
     (simp_all add: post_begin_fields post_resume_fields handler_addAction_fields
        ws_on_message_fields)

lemma ws_payloads_Cons: "ws_payloads (e # evs) = ws_payloads [e] @ ws_payloads evs"
  by (cases e) simp_all

lemma run_voiceEvents: "voiceEvents (run evs s) = voiceEvents s"
  by (induction evs arbitrary: s) (simp_all add: run_Nil run_Cons step_voiceEvents)

lemma run_bus_instances: "bus_instances (run evs s) = bus_instances s"
  by (induction evs arbitrary: s) (simp_all add: run_Nil run_Cons step_bus_instances)

lemma run_ws_sent: "ws_sent (run evs s) = ws_sent s"
  by (induction evs arbitrary: s) (simp_all add: run_Nil run_Cons step_ws_sent)

lemma run_broadcasts:
  "broadcasts (run evs s) = broadcasts s @ map (Pair (voiceEvents s)) (ws_payloads evs)"
proof (induction evs arbitrary: s)
  case Nil
  then show ?case by (simp add: run_Nil)
next
  case (Cons e evs)
  have "ws_payloads (e # evs) = ws_payloads [e] @ ws_payloads evs"
    by (rule ws_payloads_Cons)
  then show ?case
    by (simp add: run_Cons Cons.IH step_broadcasts step_voiceEvents)
qed

lemma step_builder_events:
  assumes "\<And>a b. builders s a = Some b \<Longrightarrow> events b = voiceEvents s"
    and "builders (step e s) a = Some b"
  shows "events b = voiceEvents s"
proof (cases e)
  case (Post p)
  then show ?thesis using assms
    by (cases "a = next_addr s") (auto simp add: post_begin_fields)
next
  case (HandlerAddAction r act)
  then show ?thesis
    using assms(1) map_option_eq_SomeD [OF handler_addAction_events, of r act s a b] assms(2)
    by auto
qed (use assms in \<open>simp_all add: post_resume_fields ws_on_message_fields\<close>)

lemma run_builder_events:
  "builders (run evs module_init) a = Some b \<Longrightarrow> events b = voiceEvents module_init"
proof (induction evs arbitrary: a b rule: rev_induct)
  case Nil
  then show ?case by (simp add: run_Nil module_init_def)
next
  case (snoc e evs)
  have "events b = voiceEvents (run evs module_init)"
  proof (rule step_builder_events)
    show "builders (step e (run evs module_init)) a = Some b"
      using snoc.prems by (simp add: run_snoc)
  qed (simp add: snoc.IH run_voiceEvents)
  then show ?case by (simp add: run_voiceEvents)
qed

subsection \<open>The response of one request\<close>

lemma running_fresh_step:
  assumes "\<And>r i. invocations s r = Some i \<Longrightarrow> handler i = Running \<Longrightarrow> res i = fresh_response"
    and "invocations (step e s) r = Some i" "handler i = Running"
  shows "res i = fresh_response"
proof (cases e)
  case (Post p)
  then show ?thesis using assms
    by (cases "r = requests s") (auto simp add: post_begin_fields)
next
  case (HandlerReturn r')
  then show ?thesis using assms
    by (auto simp add: post_resume_def split: option.splits if_splits)
next
  case (HandlerThrow r' err)
  then show ?thesis using assms
    by (auto simp add: post_resume_def split: option.splits if_splits)
qed (use assms in \<open>simp_all add: handler_addAction_fields ws_on_message_fields\<close>)

lemma running_fresh:
  "invocations (run evs module_init) r = Some i \<Longrightarrow> handler i = Running \<Longrightarrow>
     res i = fresh_response"
proof (induction evs arbitrary: r i rule: rev_induct)
  case Nil
  then show ?case by (simp add: run_Nil module_init_def)
next
  case (snoc e evs)
  show ?case
  proof (rule running_fresh_step)
    show "invocations (step e (run evs module_init)) r = Some i"
      using snoc.prems by (simp add: run_snoc)
  qed (use snoc in auto)
qed

lemma settled_step:
  assumes "state_ok s" "invocations s r = Some i" "handler i \<noteq> Running"
  shows "invocations (step e s) r = Some i"
proof (cases e)
  case (Post p)
  then show ?thesis using assms state_ok_req [OF assms(1,2)]
    by (simp add: post_begin_fields)
next
  case (HandlerReturn r')
  then show ?thesis using assms
    by (cases "r' = r") (simp_all add: post_resume_def split: option.splits)
next
  case (HandlerThrow r' err)
  then show ?thesis using assms
    by (cases "r' = r") (simp_all add: post_resume_def split: option.splits)
qed (use assms in \<open>simp_all add: handler_addAction_fields ws_on_message_fields\<close>)

lemma settled_run:
  "state_ok s \<Longrightarrow> invocations s r = Some i \<Longrightarrow> handler i \<noteq> Running \<Longrightarrow>
     invocations (run evs s) r = Some i"
  by (induction evs arbitrary: s) (simp_all add: run_Nil run_Cons settled_step state_ok_step)

lemma step_unhandled: "set (unhandled s) \<subseteq> set (unhandled (step e s))"
  by (cases e)
     (auto simp add: post_begin_fields handler_addAction_fields ws_on_message_fields
        post_resume_def split: option.splits outcome.splits)

lemma run_unhandled: "set (unhandled s) \<subseteq> set (unhandled (run evs s))"
proof (induction evs arbitrary: s)
  case Nil
  then show ?case by (simp add: run_Nil)
next
  case (Cons e evs)
  then show ?case using step_unhandled [of s e] by (simp add: run_Cons) blast
qed

subsection \<open>Builders and their actions\<close>

lemma added_by_append: "added_by r (xs @ ys) = added_by r xs @ added_by r ys"
  by (induction r xs rule: added_by.induct) simp_all

lemma handler_addAction_own:
  assumes "invocations s r = Some i" "handler i = Running" "builders s (response i) = Some b"
  shows "builders (handler_addAction r act s) =
           (builders s)(response i \<mapsto> b\<lparr>actions := actions b @ [act]\<rparr>)"
  using assms by (simp add: handler_addAction_def)

lemma handler_addAction_idle:
  assumes "invocations s r = None \<or> (\<exists>i. invocations s r = Some i \<and> handler i \<noteq> Running)"
  shows "builders (handler_addAction r act s) = builders s"
  using assms by (auto simp add: handler_addAction_def)

lemma handler_addAction_frame:
  assumes "state_ok s" "invocations s r' = Some i'" "r' \<noteq> r"
  shows "builders (handler_addAction r act s) (response i') = builders s (response i')"
proof (cases "invocations s r")
  case None
  then show ?thesis by (simp add: handler_addAction_def)
next
  case (Some i)
  then have "response i \<noteq> response i'"
    using state_ok_inj [OF assms(1) Some assms(2)] assms(3) by blast
  then show ?thesis using Some
    by (simp add: handler_addAction_def split: option.splits)
qed

lemma isolated_step:
  assumes "state_ok s" "invocations s r = Some i" "builders s (response i) = Some b"
  shows "\<exists>i' b'. invocations (step e s) r = Some i' \<and> response i' = response i
           \<and> builders (step e s) (response i) = Some b'
           \<and> (actions b' = actions b \<or> actions b' = actions b @ added_by r [e])"
proof (cases e)
  case (Post p)
  have "r \<noteq> requests s" using state_ok_req [OF assms(1,2)] by simp
  moreover have "response i \<noteq> next_addr s" using state_ok_response_lt [OF assms(1,2)] by simp
  ultimately show ?thesis using Post assms by (simp add: post_begin_fields)
next
  case (HandlerAddAction r' act)
  show ?thesis
  proof (cases "r' = r")
    case True
    show ?thesis
    proof (cases "handler i = Running")
      case True
      then show ?thesis using \<open>r' = r\<close> HandlerAddAction assms
        by (simp add: handler_addAction_fields handler_addAction_own)
    next
      case False
      then show ?thesis using \<open>r' = r\<close> HandlerAddAction assms
        by (simp add: handler_addAction_fields handler_addAction_idle)
    qed
  next
    case False
    then show ?thesis
      using HandlerAddAction assms handler_addAction_frame [OF assms(1,2), of r' act]
      by (simp add: handler_addAction_fields)
  qed
next
  case (HandlerReturn r')
  obtain i' where "invocations (post_resume r' Return s) r = Some i'" "response i' = response i"
    using map_option_eq_SomeD [OF post_resume_response [symmetric] assms(2)] by blast
  then show ?thesis using HandlerReturn assms by (simp add: post_resume_fields)
next
  case (HandlerThrow r' err)
  obtain i' where "invocations (post_resume r' (Throw err) s) r = Some i'"
      "response i' = response i"
    using map_option_eq_SomeD [OF post_resume_response [symmetric] assms(2)] by blast
  then show ?thesis using HandlerThrow assms by (simp add: post_resume_fields)
qed (use assms in \<open>simp_all add: ws_on_message_fields\<close>)

lemma new_invocation_step:
  assumes "invocations s r = None" "invocations (step e s) r = Some i"
  shows "builders (step e s) (response i) =
           Some \<lparr>request = req_body i, events = voiceEvents s, actions = []\<rparr>"
proof (cases e)
  case (Post p)
  then show ?thesis using assms
    by (cases "r = requests s") (auto simp add: post_begin_fields)
next
  case (HandlerReturn r')
  then show ?thesis
    using assms
      map_option_eq_SomeD [OF post_resume_response assms(2) [unfolded HandlerReturn step.simps]]
    by simp
next
  case (HandlerThrow r' err)
  then show ?thesis
    using assms
      map_option_eq_SomeD [OF post_resume_response assms(2) [unfolded HandlerThrow step.simps]]
    by simp
qed (use assms in \<open>simp_all add: ws_on_message_fields handler_addAction_fields\<close>)

lemma subseq_added:
  "invocations (run evs module_init) r = Some i \<Longrightarrow>
     \<exists>b. builders (run evs module_init) (response i) = Some b
        \<and> subseq (actions b) (added_by r evs)"
proof (induction evs arbitrary: i rule: rev_induct)
  case Nil
  then show ?case by (simp add: run_Nil module_init_def)
next
  case (snoc e evs)
  let ?s = "run evs module_init"
  have ok: "state_ok ?s" by (simp add: state_ok_run state_ok_init)
  show ?case
  proof (cases "invocations ?s r")
    case None
    then show ?thesis
      using new_invocation_step [of ?s r e i] snoc.prems by (simp add: run_snoc)
  next
    case (Some i0)
    then obtain b0 where b0: "builders ?s (response i0) = Some b0"
        "subseq (actions b0) (added_by r evs)"
      using snoc.IH by blast
    obtain i' b' where st: "invocations (step e ?s) r = Some i'" "response i' = response i0"
        "builders (step e ?s) (response i0) = Some b'"
        "actions b' = actions b0 \<or> actions b' = actions b0 @ added_by r [e]"
      using isolated_step [OF ok Some b0(1)] by blast
    have "i' = i" using st(1) snoc.prems by (simp add: run_snoc)
    moreover have "subseq (actions b') (added_by r evs @ added_by r [e])"
      using st(4) b0(2) by (auto simp add: list_emb_append2 intro: list_emb_append_mono)
    ultimately show ?thesis
      using st by (auto simp add: run_snoc added_by_append)
  qed
qed

subsection \<open>The webhook dispatcher\<close>

text \<open>
  C1, as the code has it. Take any run after which request \<open>r\<close> is waiting for its
  handler. If the handler then returns, the response of \<open>r\<close> is ended by exactly one call
  of \<open>res.end\<close>, and nothing that happens later ends it again. If the handler then fails,
  the failure is not caught by the dispatcher: it leaves the route callback as an unhandled
  rejection, \<open>res.end\<close> is never called, and the response stays open whatever happens later.
\<close>

theorem post_response_closed_only_on_return:
  assumes "invocations (run evs module_init) r = Some i" and "handler i = Running"
  shows "(\<exists>j. invocations (run (evs @ HandlerReturn r # evs') module_init) r = Some j
              \<and> handler j = Returned \<and> finished (res j) \<and> end_calls (res j) = 1)
       \<and> (\<exists>j. invocations (run (evs @ HandlerThrow r e # evs') module_init) r = Some j
              \<and> handler j = Threw e \<and> \<not> finished (res j) \<and> end_calls (res j) = 0)
       \<and> (r, e) \<in> set (unhandled (run (evs @ HandlerThrow r e # evs') module_init))"
proof -
  let ?s = "run evs module_init"
  have ok: "state_ok ?s" by (simp add: state_ok_run state_ok_init)
  have fresh: "res i = fresh_response" using running_fresh assms by blast
  let ?j = "i\<lparr>res := res_end (res i), handler := Returned\<rparr>"
  let ?k = "i\<lparr>handler := Threw e\<rparr>"
  have a: "invocations (step (HandlerReturn r) ?s) r = Some ?j"
    using assms by (simp add: post_resume_def)
  have "invocations (run evs' (step (HandlerReturn r) ?s)) r = Some ?j"
    by (rule settled_run [OF state_ok_step [OF ok] a]) simp
  then have 1: "invocations (run (evs @ HandlerReturn r # evs') module_init) r = Some ?j"
    by (simp add: run_append run_Cons)
  have b: "invocations (step (HandlerThrow r e) ?s) r = Some ?k"
    using assms by (simp add: post_resume_def)
  have "invocations (run evs' (step (HandlerThrow r e) ?s)) r = Some ?k"
    by (rule settled_run [OF state_ok_step [OF ok] b]) simp
  then have 2: "invocations (run (evs @ HandlerThrow r e # evs') module_init) r = Some ?k"
    by (simp add: run_append run_Cons)
  have "(r, e) \<in> set (unhandled (step (HandlerThrow r e) ?s))"
    using assms by (simp add: post_resume_def)
  then have 3: "(r, e) \<in> set (unhandled (run (evs @ HandlerThrow r e # evs') module_init))"
    using run_unhandled [of "step (HandlerThrow r e) ?s" evs']
    by (auto simp add: run_append run_Cons)
  show ?thesis
    using 1 2 3 fresh by (simp add: res_end_def fresh_response_def)
qed

text \<open>
  One POST whose handler returns, followed by a second, spurious completion: the response
  is ended once.
\<close>

theorem post_response_closed_only_on_return_witness:
  "invocations (run [Post ''{}''] module_init) 0
     = Some \<lparr>req_body = ''{}'', response = 1, res = fresh_response, handler = Running\<rparr>
   \<and> map_option (end_calls \<circ> res)
        (invocations (run ([Post ''{}''] @ HandlerReturn 0 # [HandlerReturn 0]) module_init) 0)
       = Some 1
   \<and> map_option (finished \<circ> res)
        (invocations (run ([Post ''{}''] @ HandlerReturn 0 # [HandlerReturn 0]) module_init) 0)
       = Some True"
proof -
  have h: "invocations (run [Post ''{}''] module_init) 0
     = Some \<lparr>req_body = ''{}'', response = 1, res = fresh_response, handler = Running\<rparr>"
    by (simp add: run_def post_begin_def module_init_def)
  show ?thesis
    using h post_response_closed_only_on_return [OF h, of "[HandlerReturn 0]"]
    by (simp add: run_def post_begin_def post_resume_def module_init_def fresh_response_def
          res_end_def)
qed

text \<open>
  C1 as stated fails: one POST whose handler throws. The response is not finished and
  \<open>res.end\<close> has not been called.
\<close>

theorem post_throw_leaves_response_open:
  "map_option (finished \<circ> res)
     (invocations (run [Post ''{}'', HandlerThrow 0 (UserError ''boom'')] module_init) 0)
     = Some False
   \<and> map_option (end_calls \<circ> res)
     (invocations (run [Post ''{}'', HandlerThrow 0 (UserError ''boom'')] module_init) 0)
     = Some 0"
  by (simp add: run_def post_begin_def post_resume_def module_init_def fresh_response_def)

lemma posts_Cons: "posts (e # evs) = posts [e] + posts evs"
  by (cases e) simp_all

lemma step_requests: "requests (step e s) = requests s + posts [e]"
  by (cases e)
     (simp_all add: post_begin_fields post_resume_fields handler_addAction_fields
        ws_on_message_fields)

lemma run_requests: "requests (run evs s) = requests s + posts evs"
proof (induction evs arbitrary: s)
  case Nil
  then show ?case by (simp add: run_Nil)
next
  case (Cons e evs)
  have "posts (e # evs) = posts [e] + posts evs" by (rule posts_Cons)
  then show ?case by (simp add: run_Cons Cons.IH step_requests)
qed

lemma active_step:
  assumes "\<And>r. r < requests s \<Longrightarrow> \<exists>i. invocations s r = Some i"
    and "r < requests (step e s)"
  shows "\<exists>i. invocations (step e s) r = Some i"
proof (cases e)
  case (Post p)
  then show ?thesis using assms
    by (cases "r = requests s") (auto simp add: post_begin_fields less_Suc_eq)
next
  case (HandlerReturn r')
  then obtain i where "invocations s r = Some i"
    using assms by (auto simp add: post_resume_fields)
  then show ?thesis
    using HandlerReturn map_option_eq_SomeD [OF post_resume_response [symmetric]] by fastforce
next
  case (HandlerThrow r' err)
  then obtain i where "invocations s r = Some i"
    using assms by (auto simp add: post_resume_fields)
  then show ?thesis
    using HandlerThrow map_option_eq_SomeD [OF post_resume_response [symmetric]] by fastforce
qed (use assms in \<open>simp_all add: handler_addAction_fields ws_on_message_fields\<close>)

lemma active_run:
  "r < requests (run evs module_init) \<Longrightarrow> \<exists>i. invocations (run evs module_init) r = Some i"
proof (induction evs arbitrary: r rule: rev_induct)
  case Nil
  then show ?case by (simp add: run_Nil module_init_def)
next
  case (snoc e evs)
  show ?case
    unfolding run_snoc
  proof (rule active_step)
    show "r < requests (step e (run evs module_init))"
      using snoc.prems by (simp add: run_snoc)
  qed (use snoc.IH in blast)
qed

text \<open>
  C2. In every run, each POST received so far has its own activation of the route
  callback, numbered in order of arrival. The next POST finds its number and the next
  address unused, and gets a new builder at that address, constructed from its body and
  the module's event bus with no actions, together with an activation in which the handler
  runs on that builder; a handler step for a request that has not arrived does nothing.
  Two different requests hold builders at different addresses, both on the heap; the
  action sequence of each builder is drawn, in order, from the actions its own handler
  asked for; and when the handler of one of them adds an action, that action is appended
  to its own builder and the other builder is unchanged.
\<close>

theorem builders_never_shared:
  "requests (run evs module_init) = posts evs
   \<and> (\<forall>r < posts evs. \<exists>i. invocations (run evs module_init) r = Some i)
   \<and> invocations (run evs module_init) (posts evs) = None
   \<and> builders (run evs module_init) (next_addr (run evs module_init)) = None
   \<and> invocations (run (evs @ [Post b]) module_init) (posts evs)
       = Some \<lparr>req_body = b, response = next_addr (run evs module_init),
                res = fresh_response, handler = Running\<rparr>
   \<and> builders (run (evs @ [Post b]) module_init) (next_addr (run evs module_init))
       = Some \<lparr>request = b, events = voiceEvents module_init, actions = []\<rparr>
   \<and> (invocations (run evs module_init) r = None \<longrightarrow>
        step (HandlerAddAction r act) (run evs module_init) = run evs module_init)
   \<and> (invocations (run evs module_init) r1 = Some i1
        \<and> invocations (run evs module_init) r2 = Some i2 \<and> r1 \<noteq> r2 \<longrightarrow>
        response i1 \<noteq> response i2
        \<and> (\<exists>b1 b2. builders (run evs module_init) (response i1) = Some b1
                 \<and> builders (run evs module_init) (response i2) = Some b2
                 \<and> subseq (actions b1) (added_by r1 evs)
                 \<and> subseq (actions b2) (added_by r2 evs)
                 \<and> (handler i1 = Running \<longrightarrow>
                      builders (step (HandlerAddAction r1 act) (run evs module_init)) (response i1)
                        = Some (b1\<lparr>actions := actions b1 @ [act]\<rparr>)
                    \<and> builders (step (HandlerAddAction r1 act) (run evs module_init)) (response i2)
                        = Some b2)))"
proof -
  let ?s = "run evs module_init"
  have ok: "state_ok ?s" by (simp add: state_ok_run state_ok_init)
  have n: "requests ?s = posts evs"
    by (simp add: run_requests module_init_def)
  have 1: "\<forall>r < posts evs. \<exists>i. invocations ?s r = Some i"
    using active_run n by simp
  have 2: "invocations ?s (posts evs) = None"
  proof (cases "invocations ?s (posts evs)")
    case (Some i)
    then show ?thesis using state_ok_req [OF ok Some] n by simp
  qed simp
  have 3: "builders ?s (next_addr ?s) = None"
  proof (cases "builders ?s (next_addr ?s)")
    case (Some c)
    then show ?thesis using state_ok_addr [OF ok Some] by simp
  qed simp
  have 4: "invocations (run (evs @ [Post b]) module_init) (posts evs)
       = Some \<lparr>req_body = b, response = next_addr ?s, res = fresh_response, handler = Running\<rparr>"
    using n by (simp add: run_snoc post_begin_fields)
  have 5: "builders (run (evs @ [Post b]) module_init) (next_addr ?s)
       = Some \<lparr>request = b, events = voiceEvents module_init, actions = []\<rparr>"
    by (simp add: run_snoc post_begin_fields run_voiceEvents)
  have 6: "invocations ?s r = None \<longrightarrow> step (HandlerAddAction r act) ?s = ?s"
    by (simp add: handler_addAction_def)
  have 7: "response i1 \<noteq> response i2
        \<and> (\<exists>b1 b2. builders ?s (response i1) = Some b1
                 \<and> builders ?s (response i2) = Some b2
                 \<and> subseq (actions b1) (added_by r1 evs)
                 \<and> subseq (actions b2) (added_by r2 evs)
                 \<and> (handler i1 = Running \<longrightarrow>
                      builders (step (HandlerAddAction r1 act) ?s) (response i1)
                        = Some (b1\<lparr>actions := actions b1 @ [act]\<rparr>)
                    \<and> builders (step (HandlerAddAction r1 act) ?s) (response i2) = Some b2))"
    if h: "invocations ?s r1 = Some i1" "invocations ?s r2 = Some i2" "r1 \<noteq> r2"
  proof -
    have ne: "response i1 \<noteq> response i2"
      using state_ok_inj [OF ok h(1,2)] h(3) by blast
    obtain b1 where b1: "builders ?s (response i1) = Some b1"
        "subseq (actions b1) (added_by r1 evs)"
      using subseq_added [OF h(1)] by blast
    obtain b2 where b2: "builders ?s (response i2) = Some b2"
        "subseq (actions b2) (added_by r2 evs)"
      using subseq_added [OF h(2)] by blast
    have "handler i1 = Running \<longrightarrow>
            builders (step (HandlerAddAction r1 act) ?s) (response i1)
              = Some (b1\<lparr>actions := actions b1 @ [act]\<rparr>)
          \<and> builders (step (HandlerAddAction r1 act) ?s) (response i2) = Some b2"
      using handler_addAction_own [OF h(1) _ b1(1), of act] ne b2(1) by simp
    then show ?thesis using ne b1 b2 by blast
  qed
  show ?thesis
    using n 1 2 3 4 5 6 7 by blast
qed

text \<open>
  Two POSTs in flight at once, each handler adding one action, interleaved, and a third
  POST arriving: the first builder holds only \<open>play\<close>, the second only \<open>hangup\<close>, and the
  third request gets the next number, the next address and an empty builder.
\<close>

theorem builders_never_shared_witness:
  "posts [Post ''a'', Post ''b'', HandlerAddAction 1 ''hangup'', HandlerAddAction 0 ''play''] = 2
   \<and> invocations (run [Post ''a'', Post ''b'', HandlerAddAction 1 ''hangup'',
                     HandlerAddAction 0 ''play''] module_init) 0
     = Some \<lparr>req_body = ''a'', response = 1, res = fresh_response, handler = Running\<rparr>
   \<and> invocations (run [Post ''a'', Post ''b'', HandlerAddAction 1 ''hangup'',
                       HandlerAddAction 0 ''play''] module_init) 1
     = Some \<lparr>req_body = ''b'', response = 2, res = fresh_response, handler = Running\<rparr>
   \<and> (0::nat) \<noteq> 1 \<and> (1::nat) \<noteq> 2
   \<and> map_option actions
        (builders (run [Post ''a'', Post ''b'', HandlerAddAction 1 ''hangup'',
                        HandlerAddAction 0 ''play''] module_init) 1) = Some [''play'']
   \<and> map_option actions
        (builders (run [Post ''a'', Post ''b'', HandlerAddAction 1 ''hangup'',
                        HandlerAddAction 0 ''play''] module_init) 2) = Some [''hangup'']
   \<and> invocations (run [Post ''a'', Post ''b'', HandlerAddAction 1 ''hangup'',
                       HandlerAddAction 0 ''play''] module_init) 2 = None
   \<and> step (HandlerAddAction 2 ''early'')
        (run [Post ''a'', Post ''b'', HandlerAddAction 1 ''hangup'',
              HandlerAddAction 0 ''play''] module_init)
       = run [Post ''a'', Post ''b'', HandlerAddAction 1 ''hangup'',
              HandlerAddAction 0 ''play''] module_init
   \<and> invocations (run ([Post ''a'', Post ''b'', HandlerAddAction 1 ''hangup'',
                        HandlerAddAction 0 ''play''] @ [Post ''c'']) module_init) 2
     = Some \<lparr>req_body = ''c'', response = 3, res = fresh_response, handler = Running\<rparr>
   \<and> builders (run ([Post ''a'', Post ''b'', HandlerAddAction 1 ''hangup'',
                     HandlerAddAction 0 ''play''] @ [Post ''c'']) module_init) 3
     = Some \<lparr>request = ''c'', events = 0, actions = []\<rparr>"
proof -
  let ?evs = "[Post ''a'', Post ''b'', HandlerAddAction 1 ''hangup'', HandlerAddAction 0 ''play'']"
  have h1: "invocations (run ?evs module_init) 0
     = Some \<lparr>req_body = ''a'', response = 1, res = fresh_response, handler = Running\<rparr>"
    by (simp add: run_def post_begin_def handler_addAction_def module_init_def)
  have h2: "invocations (run ?evs module_init) 1
     = Some \<lparr>req_body = ''b'', response = 2, res = fresh_response, handler = Running\<rparr>"
    by (simp add: run_def post_begin_def handler_addAction_def module_init_def)
  have h3: "next_addr (run ?evs module_init) = 3"
    by (simp add: run_def post_begin_def handler_addAction_def module_init_def)
  have h4: "builders (run ?evs module_init) 1 = Some \<lparr>request = ''a'', events = 0, actions = [''play'']\<rparr>"
    "builders (run ?evs module_init) 2 = Some \<lparr>request = ''b'', events = 0, actions = [''hangup'']\<rparr>"
    by (simp_all add: run_def post_begin_def handler_addAction_def module_init_def)
  have h5: "posts ?evs = 2" by simp
  have h6: "voiceEvents module_init = 0" by (simp add: module_init_def)
  note inst = builders_never_shared [of ?evs "''c''" 2 "''early''" 0
        "\<lparr>req_body = ''a'', response = 1, res = fresh_response, handler = Running\<rparr>" 1
        "\<lparr>req_body = ''b'', response = 2, res = fresh_response, handler = Running\<rparr>"]
  have g1: "invocations (run ?evs module_init) 2 = None"
    using inst [THEN conjunct2, THEN conjunct2, THEN conjunct1] unfolding h5 .
  have g2: "invocations (run (?evs @ [Post ''c'']) module_init) 2
     = Some \<lparr>req_body = ''c'', response = 3, res = fresh_response, handler = Running\<rparr>"
    using inst [THEN conjunct2, THEN conjunct2, THEN conjunct2, THEN conjunct2, THEN conjunct1]
    unfolding h5 h3 .
  have g3: "builders (run (?evs @ [Post ''c'']) module_init) 3
     = Some \<lparr>request = ''c'', events = 0, actions = []\<rparr>"
    using inst [THEN conjunct2, THEN conjunct2, THEN conjunct2, THEN conjunct2, THEN conjunct2,
                THEN conjunct1]
    unfolding h3 h6 .
  have g4: "step (HandlerAddAction 2 ''early'') (run ?evs module_init) = run ?evs module_init"
    using inst [THEN conjunct2, THEN conjunct2, THEN conjunct2, THEN conjunct2, THEN conjunct2,
                THEN conjunct2, THEN conjunct1] g1
    by blast
  have g5: "map_option actions (builders (run ?evs module_init) 1) = Some [''play'']"
    "map_option actions (builders (run ?evs module_init) 2) = Some [''hangup'']"
    using h4 by simp_all
  have g6: "(0::nat) \<noteq> 1 \<and> (1::nat) \<noteq> 2" by simp
  show ?thesis
    using h1 h2 h5 g1 g2 g3 g4 g5 g6 by blast
qed

subsection \<open>The event bus reference\<close>

text \<open>
  C3. The module creates its \<open>VoiceEvents\<close> object once, when it is loaded, ahead of any
  server being constructed. In every run that follows, that object is the only event bus
  there is, the module constant still refers to it, every builder on the heap was
  constructed with it, and every broadcast is sent to it.
\<close>

theorem event_bus_singleton:
  "bus_instances (run evs module_init) = [voiceEvents module_init]
   \<and> voiceEvents (run evs module_init) = voiceEvents module_init
   \<and> (\<forall>a b. builders (run evs module_init) a = Some b \<longrightarrow> events b = voiceEvents module_init)
   \<and> (\<forall>x \<in> set (broadcasts (run evs module_init)). fst x = voiceEvents module_init)"
proof -
  have "bus_instances (run evs module_init) = [voiceEvents module_init]"
    by (simp add: run_bus_instances module_init_def)
  moreover have "\<forall>x \<in> set (broadcasts (run evs module_init)). fst x = voiceEvents module_init"
    by (auto simp add: run_broadcasts module_init_def)
  ultimately show ?thesis
    using run_builder_events by (simp add: run_voiceEvents)
qed

theorem event_bus_singleton_witness:
  "bus_instances (run [Post ''a'', WsMessage 7 ''digit'', Post ''b''] module_init) = [0]
   \<and> builders (run [Post ''a'', WsMessage 7 ''digit'', Post ''b''] module_init) 2
       = Some \<lparr>request = ''b'', events = 0, actions = []\<rparr>
   \<and> events \<lparr>request = ''b'', events = 0, actions = []\<rparr> = voiceEvents module_init
   \<and> (0, ''digit'') \<in> set (broadcasts (run [Post ''a'', WsMessage 7 ''digit'', Post ''b''] module_init))
   \<and> fst (0::nat, ''digit'') = voiceEvents module_init"
  using event_bus_singleton [of "[Post ''a'', WsMessage 7 ''digit'', Post ''b'']"]
  by (simp add: run_def post_begin_def ws_on_message_def module_init_def)

subsection \<open>The realtime relay\<close>

text \<open>
  C5. In every run, the calls of \<open>broadcast\<close> are exactly the payloads received on
  WebSocket connections, one call per message, in order of arrival, each payload as it
  was received and each sent to the module's event bus; no frame is ever written back to
  a socket; a message changes nothing in the state but the log of broadcasts, whichever
  connection it came from; and opening a connection changes nothing at all.
\<close>

theorem relay_forwards_raw_payload:
  "broadcasts (run evs module_init) = map (Pair (voiceEvents module_init)) (ws_payloads evs)
   \<and> ws_sent (run evs module_init) = []
   \<and> step (WsMessage c msg) s = s\<lparr>broadcasts := broadcasts s @ [(voiceEvents s, msg)]\<rparr>
   \<and> step (WsConnect c) s = s"
  by (simp add: run_broadcasts run_ws_sent ws_on_message_def) (simp add: module_init_def)

theorem relay_forwards_raw_payload_witness:
  "broadcasts (run [WsConnect 1, WsMessage 1 ''{\"type\":\"digit\"}'', Post ''a'',
                    WsMessage 2 ''not json''] module_init)
     = [(0, ''{\"type\":\"digit\"}''), (0, ''not json'')]
   \<and> ws_sent (run [WsConnect 1, WsMessage 1 ''{\"type\":\"digit\"}'', Post ''a'',
                    WsMessage 2 ''not json''] module_init) = []"
  using relay_forwards_raw_payload [of "[WsConnect 1, WsMessage 1 ''{\"type\":\"digit\"}'',
      Post ''a'', WsMessage 2 ''not json'']" 1 "''x''" module_init]
  by (simp add: module_init_def)

subsection \<open>Configuration\<close>

text \<open>
  C6. The constructor's configuration is the caller's object merged over the defaults:
  every field the caller gives keeps the caller's value; \<open>path\<close>, \<open>port\<close> and \<open>bind\<close>, when
  left out, are "/", 3000 and "0.0.0.0"; and with no argument the configuration is the
  default configuration.
\<close>

theorem config_merged_over_defaults:
  "(\<forall>k v. c k = Some v \<longrightarrow> VoiceServer (Some c) k = Some v)
   \<and> (c ''path'' = None \<longrightarrow> VoiceServer (Some c) ''path'' = Some (JStr ''/''))
   \<and> (c ''port'' = None \<longrightarrow> VoiceServer (Some c) ''port'' = Some (JNum 3000))
   \<and> (c ''bind'' = None \<longrightarrow> VoiceServer (Some c) ''bind'' = Some (JStr ''0.0.0.0''))
   \<and> VoiceServer None = defaultServerConfig"
proof -
  have "VoiceServer None = defaultServerConfig"
    by (rule ext) (simp add: VoiceServer_def merge_def map_add_def split: option.splits)
  then show ?thesis
    by (simp add: VoiceServer_def merge_def defaultServerConfig_def map_add_def)
qed

theorem config_merged_over_defaults_witness:
  "port_only ''port'' = Some (JNum 8080)
   \<and> VoiceServer (Some port_only) ''port'' = Some (JNum 8080)
   \<and> port_only ''path'' = None
   \<and> VoiceServer (Some port_only) ''path'' = Some (JStr ''/'')
   \<and> port_only ''bind'' = None
   \<and> VoiceServer (Some port_only) ''bind'' = Some (JStr ''0.0.0.0'')"
  using config_merged_over_defaults [of port_only]
  by (simp add: port_only_def)

subsection \<open>The static asset responder\<close>

lemma fresh_cong:
  "statusCode r = statusCode r' \<Longrightarrow> headers r ''etag'' = headers r' ''etag'' \<Longrightarrow>
     headers r ''last-modified'' = headers r' ''last-modified'' \<Longrightarrow>
     fresh app req r = fresh app req r'"
  by (simp add: fresh_def cong: option.case_cong none_match.case_cong)

lemma prepare_statusCode: "statusCode (prepare app c r) = statusCode r"
  by (simp add: prepare_def Let_def)

lemma prepare_etag:
  "headers r ''etag'' = None \<Longrightarrow>
     headers (prepare app c r) ''etag''
       = (if etag_fn app c = [] then None else Some (etag_fn app c))"
  by (cases c) (simp_all add: prepare_def Let_def truthy_def)

lemma prepare_last_modified:
  "headers (prepare app c r) ''last-modified'' = headers r ''last-modified''"
  by (cases c) (simp_all add: prepare_def Let_def truthy_def)

lemma fresh_needs_none_match:
  assumes "if_none_match req = None"
  shows "\<not> fresh app req (prepare app c fresh_response)"
proof -
  have "headers (prepare app c fresh_response) ''last-modified'' = None"
    by (simp add: prepare_last_modified fresh_response_def)
  then show ?thesis
    using assms by (simp add: fresh_def split: option.splits)
qed

lemma fresh_prepare_setHeader:
  "fresh app req (prepare app (Buffer d) (setHeader ''content-type'' ''audio/x-wav'' fresh_response))
     = fresh app req (prepare app (Buffer d) fresh_response)"
proof (rule fresh_cong)
  let ?r0 = "setHeader ''content-type'' ''audio/x-wav'' fresh_response"
  have e: "headers ?r0 ''etag'' = None" "headers fresh_response ''etag'' = None"
    by (simp_all add: setHeader_def fresh_response_def)
  show "statusCode (prepare app (Buffer d) ?r0) = statusCode (prepare app (Buffer d) fresh_response)"
    by (simp add: prepare_statusCode setHeader_def)
  show "headers (prepare app (Buffer d) ?r0) ''etag''
      = headers (prepare app (Buffer d) fresh_response) ''etag''"
    by (simp only: prepare_etag [OF e(1)] prepare_etag [OF e(2)])
  show "headers (prepare app (Buffer d) ?r0) ''last-modified''
      = headers (prepare app (Buffer d) fresh_response) ''last-modified''"
    by (simp add: prepare_last_modified setHeader_def fresh_response_def)
qed

text \<open>
  C7, as the code has it. Take a GET request whose file name has no NUL character, on a
  new response, and let the path be \<open>./.tts/\<close> followed by the name. When nothing can be
  read at the path and the HTTP layer does not judge the request fresh, the route returns
  normally with the response finished, the body "unable to find or open file" and the
  status still 200. When the file can be read and the request is not judged fresh, the
  route returns normally with the response finished and the content type \<open>audio/x-wav\<close>.
  A request without an \<open>If-None-Match\<close> header is never judged fresh here.
\<close>

theorem tts_get_responses:
  "CHR 0x00 \<notin> set (params_file req) \<longrightarrow>
     (fs (''./.tts/'' @ params_file req) = None
        \<and> \<not> fresh app req (prepare app (Text ''unable to find or open file'') fresh_response)
      \<longrightarrow> (\<exists>r. tts_get app fs req fresh_response = Inr r
               \<and> statusCode r = 200
               \<and> body r = Some (Text ''unable to find or open file'')
               \<and> finished r))
   \<and> (fs (''./.tts/'' @ params_file req) = Some d
        \<and> \<not> fresh app req (prepare app (Buffer d) fresh_response)
      \<longrightarrow> (\<exists>r. tts_get app fs req fresh_response = Inr r
               \<and> content_type r = Some ''audio/x-wav''
               \<and> finished r))
   \<and> (if_none_match req = None \<longrightarrow> \<not> fresh app req (prepare app c fresh_response))"
proof (intro impI conjI)
  assume nul: "CHR 0x00 \<notin> set (params_file req)"
  then have path: "CHR 0x00 \<notin> set (''./.tts/'' @ params_file req)" by simp
  {
    assume a: "fs (''./.tts/'' @ params_file req) = None
      \<and> \<not> fresh app req (prepare app (Text ''unable to find or open file'') fresh_response)"
    let ?r2 = "prepare app (Text ''unable to find or open file'') fresh_response"
    have st: "statusCode ?r2 = 200" "\<not> finished fresh_response"
      by (simp_all add: prepare_def fresh_response_def Let_def)
    have "send app req (Text ''unable to find or open file'') fresh_response
            = Inr (res_end (?r2\<lparr>body := Some (Text ''unable to find or open file'')\<rparr>))"
      using a st by (simp add: send_def Let_def)
    then have "tts_get app fs req fresh_response
            = Inr (res_end (res_end (?r2\<lparr>body := Some (Text ''unable to find or open file'')\<rparr>)))"
      using a path by (simp add: tts_get_def readFile_def del: set_append)
    then show "\<exists>r. tts_get app fs req fresh_response = Inr r
               \<and> statusCode r = 200
               \<and> body r = Some (Text ''unable to find or open file'')
               \<and> finished r"
      using st by (simp add: res_end_def)
  }
  {
    assume b: "fs (''./.tts/'' @ params_file req) = Some d
      \<and> \<not> fresh app req (prepare app (Buffer d) fresh_response)"
    let ?r0 = "setHeader ''content-type'' ''audio/x-wav'' fresh_response"
    let ?r2 = "prepare app (Buffer d) ?r0"
    have nf: "\<not> fresh app req ?r2"
      using b by (simp add: fresh_prepare_setHeader)
    have st: "statusCode ?r2 = 200" "\<not> finished ?r0"
        "headers ?r2 ''content-type'' = Some ''audio/x-wav''"
      by (simp_all add: prepare_def setHeader_def fresh_response_def truthy_def Let_def)
    have "send app req (Buffer d) ?r0 = Inr (res_end (?r2\<lparr>body := Some (Buffer d)\<rparr>))"
      using nf st by (simp add: send_def Let_def)
    then have "tts_get app fs req fresh_response
            = Inr (res_end (res_end (?r2\<lparr>body := Some (Buffer d)\<rparr>)))"
      using b path by (simp add: tts_get_def readFile_def del: set_append)
    then show "\<exists>r. tts_get app fs req fresh_response = Inr r
               \<and> content_type r = Some ''audio/x-wav''
               \<and> finished r"
      using st by (simp add: res_end_def content_type_def)
  }
  {
    assume "if_none_match req = None"
    then show "\<not> fresh app req (prepare app c fresh_response)"
      by (rule fresh_needs_none_match)
  }
qed

text \<open>
  Two plain GET requests on a new response: one for a file that is not there, one for a
  file that is.
\<close>

theorem tts_get_responses_witness:
  "CHR 0x00 \<notin> set (params_file get_missing)
   \<and> no_files (''./.tts/'' @ params_file get_missing) = None
   \<and> if_none_match get_missing = None
   \<and> map_sum id statusCode (tts_get sample_app no_files get_missing fresh_response) = Inr 200
   \<and> map_sum id body (tts_get sample_app no_files get_missing fresh_response)
       = Inr (Some (Text ''unable to find or open file''))
   \<and> map_sum id finished (tts_get sample_app no_files get_missing fresh_response) = Inr True
   \<and> CHR 0x00 \<notin> set (params_file get_hello)
   \<and> one_file (''./.tts/'' @ params_file get_hello) = Some ''RIFF''
   \<and> if_none_match get_hello = None
   \<and> map_sum id content_type (tts_get sample_app one_file get_hello fresh_response)
       = Inr (Some ''audio/x-wav'')
   \<and> map_sum id finished (tts_get sample_app one_file get_hello fresh_response) = Inr True"
  using tts_get_responses [of get_missing no_files sample_app "''RIFF''" "Buffer ''RIFF''"]
        tts_get_responses [of get_hello one_file sample_app "''RIFF''" "Buffer ''RIFF''"]
  by (simp add: get_missing_def get_hello_def no_files_def one_file_def sample_app_def
        tts_get_def readFile_def send_def prepare_def fresh_def setHeader_def res_end_def
        content_type_def fresh_response_def truthy_def sample_etag_def keep_charset_def Let_def)

text \<open>
  C7 as stated fails, in three ways. A plain GET for a missing file is answered with
  status 200, not 404. A GET for an existing file that carries \<open>If-None-Match: *\<close> is
  answered with status 304 and no content type. A GET whose file name is a NUL character
  makes \<open>fs.readFile\<close> raise inside the route, which then writes no response of its own.
\<close>

theorem tts_get_not_as_claimed:
  "map_sum id statusCode (tts_get sample_app no_files get_missing fresh_response) = Inr 200
   \<and> map_sum id statusCode (tts_get sample_app one_file get_hello_revalidate fresh_response)
       = Inr 304
   \<and> map_sum id content_type (tts_get sample_app one_file get_hello_revalidate fresh_response)
       = Inr None
   \<and> tts_get sample_app no_files get_nul fresh_response
       = Inl (NodeError ''ERR_INVALID_ARG_VALUE'')"
  by (simp add: get_missing_def get_hello_revalidate_def get_nul_def no_files_def one_file_def
        sample_app_def tts_get_def readFile_def send_def prepare_def fresh_def setHeader_def
        res_end_def content_type_def fresh_response_def truthy_def sample_etag_def
        keep_charset_def Let_def)

section \<open>Properties of waitForEvent\<close>









end
